theory Spec2Isabelle
  imports Complex_Main "HOL-Library.Multiset" "HOL-Library.List_Lexorder" "HOL-Library.Char_ord"
begin

section \<open>Strings as Python uses them in \<open>convert_to_csv.py\<close>\<close>

text \<open>
  Python's \<open>str(n)\<close> for an integer: decimal digits, most significant first, a leading
  minus sign for negative numbers.
\<close>

definition digit_char :: "nat \<Rightarrow> char" where
  "digit_char d = char_of (48 + d)"

fun str_nat :: "nat \<Rightarrow> string" where
  "str_nat n = (if n < 10 then [digit_char n] else str_nat (n div 10) @ [digit_char (n mod 10)])"

declare str_nat.simps [simp del]

definition str_int :: "int \<Rightarrow> string" where
  "str_int i = (if i < 0 then CHR ''-'' # str_nat (nat (- i)) else str_nat (nat i))"

text \<open>
  \<open>s.replace(old, new)\<close>: every non-overlapping occurrence of \<open>old\<close>, scanning from the
  left, is replaced by \<open>new\<close>. With an empty \<open>old\<close> Python inserts \<open>new\<close> before every
  character and at the end.
\<close>

function replace :: "string \<Rightarrow> string \<Rightarrow> string \<Rightarrow> string" where
  "replace s old new =
     (if old = [] then new @ concat (map (\<lambda>c. c # new) s)
      else if s = [] then []
      else if take (length old) s = old then new @ replace (drop (length old) s) old new
      else hd s # replace (tl s) old new)"
  by pat_completeness auto
termination
  by (relation "measure (\<lambda>(s, old, new). length s)") auto

declare replace.simps [simp del]

text \<open>\<open>s.lower()\<close> on ASCII letters; every other character is left as it is.\<close>

definition lower_char :: "char \<Rightarrow> char" where
  "lower_char c =
     (let n = (of_char c :: nat) in if 65 \<le> n \<and> n \<le> 90 then char_of (n + 32) else c)"

definition lower :: "string \<Rightarrow> string" where
  "lower s = map lower_char s"

definition endswith :: "string \<Rightarrow> string \<Rightarrow> bool" where
  "endswith s suf = (length suf \<le> length s \<and> drop (length s - length suf) s = suf)"

text \<open>\<open>os.path.join(a, b)\<close> and \<open>os.path.basename(p)\<close> of \<open>posixpath\<close>.\<close>

definition path_join :: "string \<Rightarrow> string \<Rightarrow> string" where
  "path_join a b =
     (if b \<noteq> [] \<and> hd b = CHR ''/'' then b
      else if a = [] \<or> last a = CHR ''/'' then a @ b
      else a @ ''/'' @ b)"

definition basename :: "string \<Rightarrow> string" where
  "basename p = rev (takeWhile (\<lambda>c. c \<noteq> CHR ''/'') (rev p))"

section \<open>Tables, files and effects\<close>

text \<open>
  A pandas \<open>DataFrame\<close>: the column labels and the rows, each row carrying its index
  label. A cell is a missing value, an integer, a float (by its exact value), a boolean
  or a string. The pipeline itself never computes with cells; the only place a value
  changes is the dtype cast that \<open>pd.concat\<close> applies to a column, which is an answer of
  pandas (\<open>concat_cast\<close> below).
\<close>

datatype cell = NaN | Num int | Flt rat | Bool bool | Str string

record dataframe =
  df_columns :: "string list"
  df_rows :: "(int \<times> cell list) list"

text \<open>The content of a CSV file on disk: the header line and the data lines.\<close>

record csv_file =
  header :: "string list"
  body :: "cell list list"

datatype error =
    EmptyDataError string
  | KeyError string
  | OtherError string

fun str_error :: "error \<Rightarrow> string" where
  "str_error (EmptyDataError m) = m"
| "str_error (KeyError k) = [CHR 0x27] @ k @ [CHR 0x27]"
| "str_error (OtherError m) = m"

text \<open>What a run does to the outside, in the order it does it.\<close>

datatype event =
    Print string
  | WriteCsv string csv_file
  | SavePng string
  | MakeDirs string

text \<open>
  The answers of the external collaborators during one run: the directory listing, the
  TDMS decoder (\<open>TdmsFile.read(p).as_dataframe()\<close>), the pandas parser
  (\<open>pd.read_csv(p)\<close>), the numeric routine behind each transform (\<open>Some e\<close> when it
  raises), the modification time of a file, the order in which \<open>as_completed\<close> yields
  the executor's futures, the clock (\<open>datetime.now().strftime('%Y%m%d%H%M')\<close>) and the
  path queries of \<open>main\<close>. Two more answers are not calls of the program but facts of
  its run. \<open>concat_cast objs c v\<close> is the value \<open>pd.concat(objs)\<close> stores for a cell
  \<open>v\<close> of column \<open>c\<close>, after casting the column to the common dtype of the frames (an
  integer column that is padded with missing values becomes a float column, for
  instance). \<open>schedule\<close> is the order in which the threads of the batch take their steps:
  thread 0 is the main thread, thread \<open>i\<close> the \<open>i\<close>-th submitted task.
\<close>

record world =
  listdir :: "string \<Rightarrow> string list"
  tdms_read :: "string \<Rightarrow> error + dataframe"
  read_csv :: "string \<Rightarrow> error + dataframe"
  numeric :: "nat \<Rightarrow> cell list \<Rightarrow> error option"
  getmtime :: "string \<Rightarrow> error + int"
  as_completed :: "string list \<Rightarrow> string list"
  schedule :: "nat list"
  concat_cast :: "dataframe list \<Rightarrow> string \<Rightarrow> cell \<Rightarrow> cell"
  now :: "string"
  abspath :: "string \<Rightarrow> string"
  getcwd :: "string"
  path_exists :: "string \<Rightarrow> bool"
  isdir :: "string \<Rightarrow> bool"
  isfile :: "string \<Rightarrow> bool"

text \<open>
  \<open>df.to_csv(path, index=...)\<close>: with \<open>index=True\<close> the index labels are written as a
  first column under an empty header; with \<open>index=False\<close> only the columns are written.
  The index labels are written in text form, here as the cell that reads them back.
\<close>

definition to_csv :: "dataframe \<Rightarrow> bool \<Rightarrow> csv_file" where
  "to_csv df index =
     (if index
      then \<lparr>header = [] # df_columns df, body = map (\<lambda>(i, r). Num i # r) (df_rows df)\<rparr>
      else \<lparr>header = df_columns df, body = map snd (df_rows df)\<rparr>)"

text \<open>\<open>df.empty\<close>: some axis has length zero. \<open>len(df)\<close>: the number of rows.\<close>

definition df_empty :: "dataframe \<Rightarrow> bool" where
  "df_empty df = (df_rows df = [] \<or> df_columns df = [])"

definition df_len :: "dataframe \<Rightarrow> nat" where
  "df_len df = length (df_rows df)"

section \<open>Conversion of one capture file (lines 15-28)\<close>

definition sanitize_filename :: "string \<Rightarrow> string" where
  "sanitize_filename filename = replace filename '' '' ''''"

definition convert_tdms_to_csv :: "world \<Rightarrow> string \<Rightarrow> string \<Rightarrow> event list \<times> (error + string)" where
  "convert_tdms_to_csv w tdms_path output_folder =
     (let base_filename = sanitize_filename (basename tdms_path);
          csv_filename = replace base_filename ''.tdms'' ''.csv'';
          csv_path = path_join output_folder csv_filename
      in case tdms_read w tdms_path of
           Inl e \<Rightarrow> ([], Inl e)
         | Inr df \<Rightarrow>
             ([WriteCsv csv_path (to_csv df False),
               Print (''Converted '' @ tdms_path @ '' to '' @ csv_path)],
              Inr csv_path))"

section \<open>Sequencing of effects\<close>

text \<open>
  Every operation returns the events it caused and either the exception it raised
  (\<open>Inl\<close>) or its value. \<open>then_do\<close> is statement sequencing: the second statement
  runs only if the first did not raise, and the events of a raising statement stay.
\<close>

definition then_do ::
  "event list \<times> (error + 'a) \<Rightarrow> ('a \<Rightarrow> event list \<times> (error + 'b)) \<Rightarrow> event list \<times> (error + 'b)" where
  "then_do m f =
     (case m of
        (ev, Inl e) \<Rightarrow> (ev, Inl e)
      | (ev, Inr x) \<Rightarrow> (case f x of (ev', r) \<Rightarrow> (ev @ ev', r)))"

section \<open>Merging (lines 30-66)\<close>

definition standardized_columns :: "nat \<Rightarrow> string list" where
  "standardized_columns column_count = map (\<lambda>i. ''CH'' @ str_nat i) [0..<column_count]"

text \<open>
  The column labels of \<open>pd.concat(objs)\<close> for plain \<open>Index\<close> objects (\<open>join='outer'\<close>,
  \<open>sort=False\<close>): the first index when all are equal to it, otherwise every label once,
  in the order of first appearance.
\<close>

fun uniques :: "string list \<Rightarrow> string list \<Rightarrow> string list" where
  "uniques seen [] = seen"
| "uniques seen (x # xs) = uniques (if x \<in> set seen then seen else seen @ [x]) xs"

definition union_indexes :: "string list list \<Rightarrow> string list" where
  "union_indexes indexes =
     (case indexes of
        [] \<Rightarrow> []
      | index # others \<Rightarrow>
          if \<forall>other \<in> set others. other = index then index
          else uniques [] (concat indexes))"

text \<open>
  A row of a frame with labels \<open>cols\<close>, laid out under the labels \<open>new_cols\<close>: a label
  the frame lacks gets a missing value, and every cell goes through the cast of its
  column.
\<close>

definition reindex_row ::
  "(string \<Rightarrow> cell \<Rightarrow> cell) \<Rightarrow> string list \<Rightarrow> string list \<Rightarrow> cell list \<Rightarrow> cell list" where
  "reindex_row cast cols new_cols r =
     map (\<lambda>c. cast c (case map_of (zip cols r) c of None \<Rightarrow> NaN | Some v \<Rightarrow> v)) new_cols"

text \<open>
  \<open>pd.concat(objs, ignore_index=True)\<close>: raises on an empty list; otherwise the rows of
  the frames in the order given, under the union of the labels, each column cast to its
  common dtype, numbered from 0.
\<close>

definition pd_concat :: "world \<Rightarrow> dataframe list \<Rightarrow> error + dataframe" where
  "pd_concat w objs =
     (if objs = [] then Inl (OtherError ''No objects to concatenate'')
      else
        let cols = union_indexes (map df_columns objs);
            rs = concat (map (\<lambda>df. map (\<lambda>(i, r).
                   reindex_row (concat_cast w objs) (df_columns df) cols r) (df_rows df)) objs)
        in Inr \<lparr>df_columns = cols, df_rows = zip (map int [0..<length rs]) rs\<rparr>)"

text \<open>
  The loop of lines 33-53: the events of the files in order, and the list
  \<open>dataframes\<close> it leaves behind.
\<close>

fun read_frames :: "world \<Rightarrow> string list \<Rightarrow> event list \<times> dataframe list" where
  "read_frames w [] = ([], [])"
| "read_frames w (file # files) =
     (case read_frames w files of (ev, dataframes) \<Rightarrow>
        (case read_csv w file of
           Inr df \<Rightarrow>
             if df_empty df then (Print (''Skipping empty file: '' @ file) # ev, dataframes)
             else
               let column_count = length (df_columns df);
                   df' = df\<lparr>df_columns := standardized_columns column_count\<rparr>
               in (Print (''Processed file: '' @ file @ '' | Columns = '' @
                          str_nat (length (df_columns df')) @ '', Rows = '' @ str_nat (df_len df')) # ev,
                   df' # dataframes)
         | Inl (EmptyDataError m) \<Rightarrow> (Print (''No data in '' @ file @ '', skipping.'') # ev, dataframes)
         | Inl e \<Rightarrow> (Print (''Error reading '' @ file @ '': '' @ str_error e) # ev, dataframes)))"

definition merge_csv_files ::
  "world \<Rightarrow> string list \<Rightarrow> string \<Rightarrow> string \<Rightarrow> event list \<times> (error + string option)" where
  "merge_csv_files w files output_folder timestamp =
     (case read_frames w files of (ev, dataframes) \<Rightarrow>
        if dataframes \<noteq> [] then
          (case pd_concat w dataframes of
             Inl e \<Rightarrow> (ev, Inl e)
           | Inr merged_df \<Rightarrow>
               let merged_filename = path_join output_folder (''merge_csv_'' @ timestamp @ ''.csv'')
               in (ev @
                   [Print (''After Processed file: '' @ last files @ '' | Columns = '' @
                           str_nat (length (df_columns merged_df)) @ '', Rows = '' @
                           str_nat (df_len merged_df)),
                    WriteCsv merged_filename (to_csv merged_df False),
                    Print (''Merged CSV files into '' @ merged_filename)],
                   Inr (Some merged_filename)))
        else (ev @ [Print ''No valid CSV files to merge.''], Inr None))"

section \<open>Transforms (lines 69-155)\<close>

text \<open>\<open>df[channel].values\<close>: \<open>KeyError\<close> when no column has that label.\<close>

definition column_values :: "dataframe \<Rightarrow> string \<Rightarrow> error + cell list" where
  "column_values df channel =
     (if channel \<in> set (df_columns df)
      then Inr (map (\<lambda>(i, r). case map_of (zip (df_columns df) r) channel of
                                 None \<Rightarrow> NaN | Some v \<Rightarrow> v) (df_rows df))
      else Inl (KeyError channel))"

text \<open>
  The five routines have one shape: read the file, take the channel, run the numeric
  routine, save the figure beside the CSV file, print. They differ in the routine, the
  suffix of the image name and the message.
\<close>

definition render ::
  "world \<Rightarrow> nat \<Rightarrow> string \<Rightarrow> string \<Rightarrow> string \<Rightarrow> string \<Rightarrow> event list \<times> (error + unit)" where
  "render w routine suffix message csv_file channel =
     (case read_csv w csv_file of
        Inl e \<Rightarrow> ([], Inl e)
      | Inr df \<Rightarrow>
          (case column_values df channel of
             Inl e \<Rightarrow> ([], Inl e)
           | Inr data \<Rightarrow>
               (case numeric w routine data of
                  Some e \<Rightarrow> ([], Inl e)
                | None \<Rightarrow>
                    ([SavePng (replace csv_file ''.csv'' (''_'' @ channel @ suffix)),
                      Print message], Inr ()))))"

definition stft_transform :: "world \<Rightarrow> string \<Rightarrow> string \<Rightarrow> event list \<times> (error + unit)" where
  "stft_transform w csv_file channel =
     render w 2 ''_stft.png''
       (''STFT transformation completed for '' @ channel @ ''. Image saved.'') csv_file channel"

definition cwt_transform :: "world \<Rightarrow> string \<Rightarrow> string \<Rightarrow> event list \<times> (error + unit)" where
  "cwt_transform w csv_file channel =
     render w 3 ''_cwt.png''
       (''CWT transformation completed for '' @ channel @ ''. Image saved.'') csv_file channel"

definition mel_spectrogram_transform :: "world \<Rightarrow> string \<Rightarrow> string \<Rightarrow> event list \<times> (error + unit)" where
  "mel_spectrogram_transform w csv_file channel =
     render w 1 ''_mel_spectrogram.png''
       (''Mel Spectrogram transformation completed for '' @ channel @ ''. Image saved.'')
       csv_file channel"

definition s_transform :: "world \<Rightarrow> string \<Rightarrow> string \<Rightarrow> event list \<times> (error + unit)" where
  "s_transform w csv_file channel =
     render w 5 ''_s_transform.png''
       (''S-Transform (simplified) completed for '' @ channel @ ''. Image saved.'')
       csv_file channel"

definition wigner_ville_distribution :: "world \<Rightarrow> string \<Rightarrow> string \<Rightarrow> event list \<times> (error + unit)" where
  "wigner_ville_distribution w csv_file channel =
     render w 4 ''_wvd.png''
       (''Wigner-Ville Distribution transformation completed for '' @ channel @ ''. Image saved.'')
       csv_file channel"

fun perform_transformation ::
  "world \<Rightarrow> string \<Rightarrow> string list \<Rightarrow> int \<Rightarrow> event list \<times> (error + unit)" where
  "perform_transformation w merge_csv_path [] algorithm = ([], Inr ())"
| "perform_transformation w merge_csv_path (channel # channels) algorithm =
     then_do
       (if algorithm = 1 then mel_spectrogram_transform w merge_csv_path channel
        else if algorithm = 2 then stft_transform w merge_csv_path channel
        else if algorithm = 3 then cwt_transform w merge_csv_path channel
        else if algorithm = 4 then wigner_ville_distribution w merge_csv_path channel
        else if algorithm = 5 then s_transform w merge_csv_path channel
        else ([Print (''Algorithm '' @ str_int algorithm @ '' not implemented for '' @
                      channel @ ''.'')], Inr ()))
       (\<lambda>_. perform_transformation w merge_csv_path channels algorithm)"

section \<open>The folder pipeline (lines 157-181)\<close>

text \<open>
  Lines 159-169. Every submitted task runs in a thread of the pool: its steps are the
  events of \<open>convert_tdms_to_csv\<close> on its file (none when the decoder raises). The
  main thread takes the futures in the order \<open>as_completed\<close> yields them;
  \<open>future.result()\<close> re-raises what the task raised, and nothing catches it, so the
  loop ends there. Leaving the \<open>with\<close> block waits for every task in either case, so
  all the steps of all the threads happen before the block is left.
\<close>

definition task_events :: "world \<Rightarrow> string \<Rightarrow> string \<Rightarrow> string \<Rightarrow> event list" where
  "task_events w folder_path output_folder filename =
     fst (convert_tdms_to_csv w (path_join folder_path filename) output_folder)"

fun handle_futures ::
  "world \<Rightarrow> string \<Rightarrow> string \<Rightarrow> string list \<Rightarrow> event list \<times> (error + string list)" where
  "handle_futures w folder_path output_folder [] = ([], Inr [])"
| "handle_futures w folder_path output_folder (filename # rest) =
     (case snd (convert_tdms_to_csv w (path_join folder_path filename) output_folder) of
        Inl e \<Rightarrow> ([], Inl e)
      | Inr csv_path \<Rightarrow>
          then_do
            (if csv_path \<noteq> [] then ([Print (''Converted: '' @ csv_path)], Inr [csv_path])
             else ([], Inr []))
            (\<lambda>found. case handle_futures w folder_path output_folder rest of
                        (ev', Inl e) \<Rightarrow> (ev', Inl e)
                      | (ev', Inr csv_files) \<Rightarrow> (ev', Inr (found @ csv_files))))"

text \<open>
  The events of several threads in the order of a schedule: each step of the schedule
  lets the named thread do its next event (a step naming a thread with nothing left is
  skipped), and what the schedule leaves over follows thread by thread. Every
  interleaving that keeps each thread's own order arises from some schedule; the model
  does not restrict the schedule further, so a statement about all schedules covers all
  real runs.
\<close>

fun interleave :: "nat list \<Rightarrow> event list list \<Rightarrow> event list" where
  "interleave [] threads = concat threads"
| "interleave (i # steps) threads =
     (if i < length threads then
        (case threads ! i of
           [] \<Rightarrow> interleave steps threads
         | e # es \<Rightarrow> e # interleave steps (threads[i := es]))
      else interleave steps threads)"

definition discovered :: "world \<Rightarrow> string \<Rightarrow> string list" where
  "discovered w folder_path =
     filter (\<lambda>filename. endswith (lower filename) ''.tdms'') (sort (listdir w folder_path))"

definition batch_convert ::
  "world \<Rightarrow> string \<Rightarrow> string \<Rightarrow> event list \<times> (error + string list)" where
  "batch_convert w folder_path output_folder =
     (let filenames = discovered w folder_path;
          main_thread = handle_futures w folder_path output_folder (as_completed w filenames);
          tasks = map (task_events w folder_path output_folder) filenames
      in (interleave (schedule w) (fst main_thread # tasks), snd main_thread))"

text \<open>
  \<open>sorted(csv_files, key=lambda x: os.path.getmtime(x))\<close>: the key of every element is
  computed first, in order (the first failing \<open>stat\<close> raises), then the elements are
  sorted by key, stably.
\<close>

fun mtime_keys :: "world \<Rightarrow> string list \<Rightarrow> error + (int \<times> string) list" where
  "mtime_keys w [] = Inr []"
| "mtime_keys w (x # xs) =
     (case getmtime w x of
        Inl e \<Rightarrow> Inl e
      | Inr t \<Rightarrow> (case mtime_keys w xs of Inl e \<Rightarrow> Inl e | Inr ks \<Rightarrow> Inr ((t, x) # ks)))"

definition sorted_by_mtime :: "world \<Rightarrow> string list \<Rightarrow> error + string list" where
  "sorted_by_mtime w csv_files =
     (case mtime_keys w csv_files of
        Inl e \<Rightarrow> Inl e
      | Inr ks \<Rightarrow> Inr (map snd (sort_key fst ks)))"

text \<open>Python truthiness of the optional arguments and of \<open>merged_csv_path\<close>.\<close>

definition truthy_list :: "'a list option \<Rightarrow> bool" where
  "truthy_list x = (case x of None \<Rightarrow> False | Some xs \<Rightarrow> xs \<noteq> [])"

definition truthy_int :: "int option \<Rightarrow> bool" where
  "truthy_int x = (case x of None \<Rightarrow> False | Some n \<Rightarrow> n \<noteq> 0)"

text \<open>Lines 171-174: \<open>merged_csv_path\<close> starts as the empty string.\<close>

definition merge_stage ::
  "world \<Rightarrow> string \<Rightarrow> bool \<Rightarrow> string list \<Rightarrow> event list \<times> (error + string option)" where
  "merge_stage w output_folder should_merge csv_files =
     (if should_merge \<and> csv_files \<noteq> [] then
        (case sorted_by_mtime w csv_files of
           Inl e \<Rightarrow> ([], Inl e)
         | Inr csv_files_sorted \<Rightarrow> merge_csv_files w csv_files_sorted output_folder (now w))
      else ([], Inr (Some [])))"

fun transform_each ::
  "world \<Rightarrow> string list \<Rightarrow> string list \<Rightarrow> int \<Rightarrow> event list \<times> (error + unit)" where
  "transform_each w [] channels algorithm = ([], Inr ())"
| "transform_each w (csv_file # csv_files) channels algorithm =
     then_do (perform_transformation w csv_file channels algorithm)
       (\<lambda>_. transform_each w csv_files channels algorithm)"

text \<open>Lines 176-181.\<close>

definition transform_stage ::
  "world \<Rightarrow> bool \<Rightarrow> bool \<Rightarrow> string list option \<Rightarrow> int option \<Rightarrow> string list \<Rightarrow>
   string option \<Rightarrow> event list \<times> (error + unit)" where
  "transform_stage w should_merge transform channels algorithm csv_files merged_csv_path =
     (if transform \<and> truthy_list channels \<and> truthy_int algorithm then
        (case (channels, algorithm) of
           (Some chs, Some alg) \<Rightarrow>
             if should_merge \<and> truthy_list merged_csv_path then
               (case merged_csv_path of
                  Some p \<Rightarrow> perform_transformation w p chs alg
                | None \<Rightarrow> ([], Inr ()))
             else if \<not> should_merge then transform_each w csv_files chs alg
             else ([], Inr ())
         | _ \<Rightarrow> ([], Inr ()))
      else ([], Inr ()))"

definition process_folder ::
  "world \<Rightarrow> string \<Rightarrow> string \<Rightarrow> bool \<Rightarrow> bool \<Rightarrow> string list option \<Rightarrow> int option \<Rightarrow>
   event list \<times> (error + unit)" where
  "process_folder w folder_path output_folder should_merge transform channels algorithm =
     then_do (batch_convert w folder_path output_folder) (\<lambda>csv_files.
     then_do (merge_stage w output_folder should_merge csv_files) (\<lambda>merged_csv_path.
       transform_stage w should_merge transform channels algorithm csv_files merged_csv_path))"

section \<open>The entry point (lines 183-210)\<close>

text \<open>The parsed command line: \<open>--channels\<close> and \<open>--algorithm\<close> are \<open>None\<close> when absent.\<close>

record args =
  arg_path :: string
  arg_output :: "string option"
  arg_merge :: bool
  arg_transform :: bool
  arg_channels :: "string list option"
  arg_algorithm :: "int option"

definition main :: "world \<Rightarrow> args \<Rightarrow> event list \<times> (error + unit)" where
  "main w a =
     (let tdms_path = abspath w (arg_path a);
          output_folder = abspath w
            (if truthy_list (arg_output a) then (case arg_output a of Some out \<Rightarrow> out | None \<Rightarrow> [])
             else path_join (getcwd w) (now w @ ''_tdms''))
      in then_do
           (if \<not> path_exists w output_folder then ([MakeDirs output_folder], Inr ())
            else ([], Inr ()))
           (\<lambda>_. if isdir w tdms_path then
                   process_folder w tdms_path output_folder (arg_merge a) (arg_transform a)
                     (arg_channels a) (arg_algorithm a)
                 else if isfile w tdms_path \<and> endswith (lower tdms_path) ''.tdms'' then
                   then_do (convert_tdms_to_csv w tdms_path output_folder) (\<lambda>csv_path.
                     if arg_transform a \<and> truthy_list (arg_channels a) \<and> truthy_int (arg_algorithm a)
                     then (case (arg_channels a, arg_algorithm a) of
                             (Some chs, Some alg) \<Rightarrow> perform_transformation w csv_path chs alg
                           | _ \<Rightarrow> ([], Inr ()))
                     else ([], Inr ()))
                 else ([], Inr ())))"

section \<open>Observations on a run\<close>

text \<open>The CSV files a run wrote, in order.\<close>

fun csv_writes :: "event list \<Rightarrow> (string \<times> csv_file) list" where
  "csv_writes [] = []"
| "csv_writes (WriteCsv p f # evs) = (p, f) # csv_writes evs"
| "csv_writes (e # evs) = csv_writes evs"

text \<open>The images a run saved, in order.\<close>

fun png_writes :: "event list \<Rightarrow> string list" where
  "png_writes [] = []"
| "png_writes (SavePng p # evs) = p # png_writes evs"
| "png_writes (e # evs) = png_writes evs"

text \<open>
  An input of the merge survives when it parses and the table is not empty; \<open>table\<close>
  is the table pandas parsed from it.
\<close>

definition survives :: "world \<Rightarrow> string \<Rightarrow> bool" where
  "survives w file = (case read_csv w file of Inr df \<Rightarrow> \<not> df_empty df | Inl e \<Rightarrow> False)"

definition table :: "world \<Rightarrow> string \<Rightarrow> dataframe" where
  "table w file =
     (case read_csv w file of Inr df \<Rightarrow> df | Inl e \<Rightarrow> \<lparr>df_columns = [], df_rows = []\<rparr>)"

definition width :: "world \<Rightarrow> string \<Rightarrow> nat" where
  "width w file = length (df_columns (table w file))"

definition survivors :: "world \<Rightarrow> string list \<Rightarrow> string list" where
  "survivors w files = filter (survives w) files"

text \<open>
  The frame line 57 builds, and the name line 60 gives the merged file.
\<close>

definition merged_df :: "world \<Rightarrow> string list \<Rightarrow> dataframe" where
  "merged_df w files =
     (case pd_concat w (snd (read_frames w files)) of
        Inr df \<Rightarrow> df
      | Inl e \<Rightarrow> \<lparr>df_columns = [], df_rows = []\<rparr>)"

definition merged_name :: "string \<Rightarrow> string \<Rightarrow> string" where
  "merged_name output_folder timestamp =
     path_join output_folder (''merge_csv_'' @ timestamp @ ''.csv'')"

text \<open>Every row of a frame has one cell per column.\<close>

definition wf_df :: "dataframe \<Rightarrow> bool" where
  "wf_df df = list_all (\<lambda>(i, r). length r = length (df_columns df)) (df_rows df)"

definition decodes :: "world \<Rightarrow> string \<Rightarrow> bool" where
  "decodes w tdms_path = (case tdms_read w tdms_path of Inr df \<Rightarrow> True | Inl e \<Rightarrow> False)"

definition stat_ok :: "world \<Rightarrow> string \<Rightarrow> bool" where
  "stat_ok w x = (case getmtime w x of Inr t \<Rightarrow> True | Inl e \<Rightarrow> False)"

definition mtime :: "world \<Rightarrow> string \<Rightarrow> int" where
  "mtime w x = (case getmtime w x of Inr t \<Rightarrow> t | Inl e \<Rightarrow> 0)"

section \<open>A small laboratory folder\<close>

definition frame_a :: dataframe where
  "frame_a = \<lparr>df_columns = [''time'', ''volt''],
              df_rows = [(0, [Num 1, Num 2]), (1, [Num 3, Num 4])]\<rparr>"

definition frame_b :: dataframe where
  "frame_b = \<lparr>df_columns = [''time'', ''volt'', ''amp''],
              df_rows = [(0, [Num 5, Num 6, Num 7])]\<rparr>"

definition frame_c :: dataframe where
  "frame_c = \<lparr>df_columns = [''t'', ''v''], df_rows = [(7, [Num 8, Num 9])]\<rparr>"

definition frame_header_only :: dataframe where
  "frame_header_only = \<lparr>df_columns = [''time'', ''volt''], df_rows = []\<rparr>"

definition frame_merged :: dataframe where
  "frame_merged = \<lparr>df_columns = [''CH0'', ''CH1'', ''CH2''],
     df_rows = [(0, [Num 5, Num 6, Flt 7]), (1, [Num 8, Num 9, NaN]),
                (2, [Num 1, Num 2, NaN]), (3, [Num 3, Num 4, NaN])]\<rparr>"

text \<open>
  The cast of the laboratory's pandas. An integer becomes the nearest float64 (ties to
  even); a column becomes a float column when it holds numbers only and some frame
  lacks it or holds a float or a missing value in it; a column that holds a string or a
  boolean in some frame keeps its values as they are.
\<close>

fun bit_length :: "nat \<Rightarrow> nat" where
  "bit_length n = (if n = 0 then 0 else Suc (bit_length (n div 2)))"

declare bit_length.simps [simp del]

definition float64_of_int :: "int \<Rightarrow> rat" where
  "float64_of_int n =
     (let a = nat \<bar>n\<bar>;
          e = bit_length a - 53;
          q = a div 2 ^ e;
          r = a mod 2 ^ e;
          half = 2 ^ e div 2;
          up = (0 < e \<and> (half < r \<or> (r = half \<and> odd q)));
          q' = (if up then q + 1 else q)
      in of_int (sgn n * int (q' * 2 ^ e)))"

definition column_cells :: "dataframe \<Rightarrow> string \<Rightarrow> cell list" where
  "column_cells df c =
     concat (map (\<lambda>(i, r). case map_of (zip (df_columns df) r) c of
                                None \<Rightarrow> [] | Some v \<Rightarrow> [v]) (df_rows df))"

definition is_object_cell :: "cell \<Rightarrow> bool" where
  "is_object_cell v = (case v of Str s \<Rightarrow> True | Bool b \<Rightarrow> True | _ \<Rightarrow> False)"

definition is_float_cell :: "cell \<Rightarrow> bool" where
  "is_float_cell v = (case v of Flt x \<Rightarrow> True | NaN \<Rightarrow> True | _ \<Rightarrow> False)"

definition lab_concat_cast :: "dataframe list \<Rightarrow> string \<Rightarrow> cell \<Rightarrow> cell" where
  "lab_concat_cast objs c v =
     (let cells = concat (map (\<lambda>df. column_cells df c) objs);
          padded = list_ex (\<lambda>df. c \<notin> set (df_columns df)) objs
      in if list_ex is_object_cell cells then v
         else if padded \<or> list_ex is_float_cell cells
           then (case v of Num n \<Rightarrow> Flt (float64_of_int n) | _ \<Rightarrow> v)
         else v)"

definition lab :: world where
  "lab = \<lparr>
     listdir = (\<lambda>d. [''run3.tdms'', ''notes.txt'', ''run 1.tdms'', ''run2.tdms'']),
     tdms_read = (\<lambda>p.
        if p = ''in/run 1.tdms'' then Inr frame_a
        else if p = ''in/run2.tdms'' then Inr frame_b
        else if p = ''in/run3.tdms'' then Inr frame_c
        else if p = ''in/X.TDMS'' then Inr frame_c
        else Inl (OtherError ''not a TDMS file'')),
     read_csv = (\<lambda>p.
        if p = ''out/run1.csv'' then Inr frame_a
        else if p = ''out/run2.csv'' then Inr frame_b
        else if p = ''out/run3.csv'' then Inr frame_c
        else if p = ''out/empty.csv'' then Inr frame_header_only
        else if p = ''out/blank.csv'' then Inl (EmptyDataError ''No columns to parse from file'')
        else if p = ''out/merge_csv_202401011200.csv'' then Inr frame_merged
        else Inl (OtherError ''No such file'')),
     numeric = (\<lambda>routine data. None),
     getmtime = (\<lambda>p.
        if p = ''out/run2.csv'' then Inr 10
        else if p = ''out/run3.csv'' then Inr 20
        else if p = ''out/run1.csv'' then Inr 30
        else Inl (OtherError ''No such file'')),
     as_completed = (\<lambda>names. case rev names of [] \<Rightarrow> [] | x # xs \<Rightarrow> x # rev xs),
     schedule = [3, 1, 3, 0, 1, 2, 0, 2, 0],
     concat_cast = lab_concat_cast,
     now = ''202401011200'',
     abspath = (\<lambda>p. p),
     getcwd = ''home'',
     path_exists = (\<lambda>p. True),
     isdir = (\<lambda>p. p = ''in''),
     isfile = (\<lambda>p. p = ''in/X.TDMS'')\<rparr>"

text \<open>The same folder with a corrupt second capture.\<close>

definition lab_corrupt :: world where
  "lab_corrupt = lab\<lparr>tdms_read := (\<lambda>p.
     if p = ''in/run2.tdms'' then Inl (OtherError ''corrupt'') else tdms_read lab p)\<rparr>"

section \<open>Facts about names\<close>

lemma of_char_digit: "d < 10 \<Longrightarrow> (of_char (digit_char d) :: nat) = 48 + d"
  by (simp add: digit_char_def)

lemma digit_char_inj: "a < 10 \<Longrightarrow> b < 10 \<Longrightarrow> digit_char a = digit_char b \<Longrightarrow> a = b"
  by (metis of_char_digit add_left_cancel)

lemma str_nat_nonempty: "str_nat n \<noteq> []"
  by (subst str_nat.simps) simp

lemma str_nat_inj: "str_nat n = str_nat m \<Longrightarrow> n = m"
proof (induction n arbitrary: m rule: str_nat.induct)
  case (1 n)
  show ?case
  proof (cases "n < 10")
    case True
    show ?thesis
    proof (cases "m < 10")
      case mlt: True
      from "1.prems" True mlt have "digit_char n = digit_char m"
        by (simp add: str_nat.simps)
      with True mlt show ?thesis by (simp add: digit_char_inj)
    next
      case False
      with "1.prems" True have "[digit_char n] = str_nat (m div 10) @ [digit_char (m mod 10)]"
        by (simp add: str_nat.simps[of n] str_nat.simps[of m])
      then have "str_nat (m div 10) = []" by simp
      then show ?thesis using str_nat_nonempty by blast
    qed
  next
    case False
    show ?thesis
    proof (cases "m < 10")
      case True
      with "1.prems" False have "str_nat (n div 10) @ [digit_char (n mod 10)] = [digit_char m]"
        by (simp add: str_nat.simps[of n] str_nat.simps[of m])
      then have "str_nat (n div 10) = []" by simp
      then show ?thesis using str_nat_nonempty by blast
    next
      case mge: False
      with "1.prems" False
      have eq: "str_nat (n div 10) @ [digit_char (n mod 10)] = str_nat (m div 10) @ [digit_char (m mod 10)]"
        by (simp add: str_nat.simps[of n] str_nat.simps[of m])
      then have a: "str_nat (n div 10) = str_nat (m div 10)"
        and b: "digit_char (n mod 10) = digit_char (m mod 10)" by simp_all
      from "1.IH"[OF False a] have d: "n div 10 = m div 10" .
      from b have e: "n mod 10 = m mod 10" by (intro digit_char_inj) simp_all
      from d e show ?thesis by (metis div_mult_mod_eq)
    qed
  qed
qed

lemma standardized_columns_Suc:
  "standardized_columns (Suc k) = standardized_columns k @ [''CH'' @ str_nat k]"
  by (simp add: standardized_columns_def)

lemma length_standardized_columns [simp]: "length (standardized_columns k) = k"
  by (simp add: standardized_columns_def)

lemma in_standardized_columns:
  "CHR ''C'' # CHR ''H'' # str_nat i \<in> set (standardized_columns k) \<longleftrightarrow> i < k"
  by (auto simp: standardized_columns_def dest: str_nat_inj)

lemma distinct_standardized_columns: "distinct (standardized_columns k)"
  by (auto simp: standardized_columns_def distinct_map intro!: inj_onI dest: str_nat_inj)

lemma uniques_append: "uniques seen (xs @ ys) = uniques (uniques seen xs) ys"
  by (induction xs arbitrary: seen) simp_all

lemma uniques_standardized:
  "uniques (standardized_columns a) (standardized_columns k) = standardized_columns (max a k)"
proof (induction k)
  case 0
  then show ?case by (simp add: standardized_columns_def)
next
  case (Suc k)
  show ?case
  proof (cases "k < a")
    case True
    then have "max a (Suc k) = a" "max a k = a" by simp_all
    with Suc True show ?thesis
      by (simp add: standardized_columns_Suc[of k] uniques_append in_standardized_columns)
  next
    case False
    then have "max a (Suc k) = Suc k" "max a k = k" by simp_all
    with Suc False show ?thesis
      by (simp add: standardized_columns_Suc[of k] uniques_append in_standardized_columns)
  qed
qed

lemma uniques_concat_standardized:
  "uniques (standardized_columns a) (concat (map standardized_columns ks)) =
   standardized_columns (fold max ks a)"
proof (induction ks arbitrary: a)
  case Nil
  then show ?case by simp
next
  case (Cons k ks)
  then show ?case by (simp add: uniques_append uniques_standardized max.commute)
qed

section \<open>Facts about the merge\<close>

lemma csv_writes_append: "csv_writes (a @ b) = csv_writes a @ csv_writes b"
  by (induction a rule: csv_writes.induct) simp_all

lemma csv_writes_read_frames: "csv_writes (fst (read_frames w files)) = []"
  by (induction files) (auto split: prod.splits sum.splits error.splits simp: Let_def)

lemma read_frames_frames:
  "snd (read_frames w files) =
   map (\<lambda>f. (table w f)\<lparr>df_columns := standardized_columns (width w f)\<rparr>) (filter (survives w) files)"
  by (induction files)
     (auto split: prod.splits sum.splits error.splits simp: Let_def survives_def table_def width_def)

lemma fold_max_nat: "fold max ks (a::nat) = Max (insert a (set ks))"
  by (metis Max.set_eq_fold list.simps(15))

lemma standardized_columns_inj: "standardized_columns a = standardized_columns b \<Longrightarrow> a = b"
  by (metis length_standardized_columns)

lemma union_standardized:
  assumes "ks \<noteq> []"
  shows "union_indexes (map standardized_columns ks) = standardized_columns (Max (set ks))"
proof -
  obtain k rest where ks: "ks = k # rest" using assms by (cases ks) auto
  show ?thesis
  proof (cases "\<forall>other \<in> set (map standardized_columns rest). other = standardized_columns k")
    case True
    then have "\<forall>j \<in> set rest. j = k" by (auto dest: standardized_columns_inj)
    then have "set ks = {k}" using ks by auto
    then have "Max (set ks) = k" by simp
    with True ks show ?thesis by (simp add: union_indexes_def)
  next
    case False
    have "uniques [] (concat (map standardized_columns ks)) = standardized_columns (fold max ks 0)"
      using uniques_concat_standardized[of 0 ks] by (simp add: standardized_columns_def)
    also have "fold max ks 0 = Max (set ks)"
      using assms by (simp add: fold_max_nat)
    finally show ?thesis using False ks by (auto simp add: union_indexes_def)
  qed
qed


lemma lookup_row_pad:
  assumes "length r = k" "k \<le> K"
  shows "map (\<lambda>c. case map_of (zip (standardized_columns k) r) c of None \<Rightarrow> NaN | Some v \<Rightarrow> v)
           (standardized_columns K) = r @ replicate (K - k) NaN"
proof (rule nth_equalityI)
  show "length (map (\<lambda>c. case map_of (zip (standardized_columns k) r) c of
                          None \<Rightarrow> NaN | Some v \<Rightarrow> v) (standardized_columns K)) =
        length (r @ replicate (K - k) NaN)"
    using assms by simp
next
  fix j assume "j < length (map (\<lambda>c. case map_of (zip (standardized_columns k) r) c of
                          None \<Rightarrow> NaN | Some v \<Rightarrow> v) (standardized_columns K))"
  then have jK: "j < K" by simp
  have nm: "standardized_columns K ! j = CHR ''C'' # CHR ''H'' # str_nat j"
    using jK by (simp add: standardized_columns_def)
  show "map (\<lambda>c. case map_of (zip (standardized_columns k) r) c of None \<Rightarrow> NaN | Some v \<Rightarrow> v)
          (standardized_columns K) ! j = (r @ replicate (K - k) NaN) ! j"
  proof (cases "j < k")
    case True
    have "standardized_columns k ! j = CHR ''C'' # CHR ''H'' # str_nat j"
      using True by (simp add: standardized_columns_def)
    then have "map_of (zip (standardized_columns k) r) (CHR ''C'' # CHR ''H'' # str_nat j) = Some (r ! j)"
      using map_of_zip_nth[of "standardized_columns k" r j] True assms(1)
        distinct_standardized_columns[of k] by simp
    then show ?thesis using jK nm True assms by (simp add: nth_append)
  next
    case False
    then have "CHR ''C'' # CHR ''H'' # str_nat j \<notin> set (standardized_columns k)"
      by (simp add: in_standardized_columns)
    then have "map_of (zip (standardized_columns k) r) (CHR ''C'' # CHR ''H'' # str_nat j) = None"
      using map_of_zip_is_None[of "standardized_columns k" r] assms(1) by simp
    then show ?thesis using jK nm False assms
      by (simp only: nth_map length_standardized_columns nth_append option.case nth_replicate) simp
  qed
qed

lemma map_cast_lookup:
  "map (\<lambda>c. cast c (f c)) xs = map2 cast xs (map f xs)"
  by (induction xs) simp_all

lemma reindex_row_pad:
  assumes "length r = k" "k \<le> K"
  shows "reindex_row cast (standardized_columns k) (standardized_columns K) r =
         map2 cast (standardized_columns K) (r @ replicate (K - k) NaN)"
  unfolding reindex_row_def map_cast_lookup[of cast] lookup_row_pad[OF assms] ..

lemma snd_read_frames:
  "snd (read_frames w files) =
   map (\<lambda>f. (table w f)\<lparr>df_columns := standardized_columns (width w f)\<rparr>) (survivors w files)"
  by (simp add: read_frames_frames survivors_def)

lemma survivors_width_pos: "f \<in> set (survivors w files) \<Longrightarrow> 0 < width w f"
  by (auto simp: survivors_def survives_def width_def table_def df_empty_def split: sum.splits)

lemma merged_df_eq:
  assumes "survivors w files \<noteq> []"
  shows "merged_df w files =
    (let K = Max (set (map (width w) (survivors w files)));
         rs = concat (map (\<lambda>f. map (\<lambda>(i, r).
                reindex_row (concat_cast w (snd (read_frames w files)))
                  (standardized_columns (width w f)) (standardized_columns K) r)
                (df_rows (table w f))) (survivors w files))
     in \<lparr>df_columns = standardized_columns K, df_rows = zip (map int [0..<length rs]) rs\<rparr>)"
proof -
  have "map df_columns (snd (read_frames w files)) =
        map standardized_columns (map (width w) (survivors w files))"
    by (simp add: snd_read_frames comp_def)
  then have cols: "union_indexes (map df_columns (snd (read_frames w files))) =
        standardized_columns (Max (set (map (width w) (survivors w files))))"
    using union_standardized[of "map (width w) (survivors w files)"] assms by simp
  have ne: "snd (read_frames w files) \<noteq> []" using assms by (simp add: snd_read_frames)
  show ?thesis
    unfolding merged_df_def pd_concat_def using ne cols
    by (simp add: Let_def snd_read_frames comp_def)
qed

lemma merge_csv_files_writes:
  assumes "survivors w files \<noteq> []"
  shows "csv_writes (fst (merge_csv_files w files out ts)) =
           [(merged_name out ts, to_csv (merged_df w files) False)]"
    and "snd (merge_csv_files w files out ts) = Inr (Some (merged_name out ts))"
proof -
  have ne: "snd (read_frames w files) \<noteq> []" using assms by (simp add: snd_read_frames)
  obtain df where df: "pd_concat w (snd (read_frames w files)) = Inr df"
    using ne by (auto simp: pd_concat_def Let_def)
  then have m: "merged_df w files = df" by (simp add: merged_df_def)
  obtain ev dfs where r: "read_frames w files = (ev, dfs)" by (cases "read_frames w files")
  have e: "csv_writes ev = []" using csv_writes_read_frames[of w files] r by simp
  show "csv_writes (fst (merge_csv_files w files out ts)) =
           [(merged_name out ts, to_csv (merged_df w files) False)]"
    using ne df m r e by (simp add: merge_csv_files_def merged_name_def Let_def csv_writes_append)
  show "snd (merge_csv_files w files out ts) = Inr (Some (merged_name out ts))"
    using ne df r by (simp add: merge_csv_files_def merged_name_def Let_def)
qed

lemma merge_csv_files_none:
  assumes "survivors w files = []"
  shows "merge_csv_files w files out ts =
           (fst (read_frames w files) @ [Print ''No valid CSV files to merge.''], Inr None)"
proof -
  have "snd (read_frames w files) = []" using assms by (simp add: snd_read_frames)
  then show ?thesis by (cases "read_frames w files") (simp add: merge_csv_files_def)
qed

section \<open>Claims about the merge\<close>

text \<open>
  C2, as the code has it. When at least one input survives, the merge writes exactly one
  file, and its header is \<open>CH0 .. CH(K-1)\<close> where \<open>K\<close> is the largest column count among
  the surviving tables: \<open>pd.concat\<close> takes the union of the positional names. The count
  is that of the first surviving table only when no later one is wider.
\<close>

theorem merge_column_count:
  assumes "survivors w files \<noteq> []"
  shows "map (header \<circ> snd) (csv_writes (fst (merge_csv_files w files out ts))) =
           [standardized_columns (Max (set (map (width w) (survivors w files))))]
       \<and> map (length \<circ> header \<circ> snd) (csv_writes (fst (merge_csv_files w files out ts))) =
           [Max (set (map (width w) (survivors w files)))]"
  using assms
  by (simp add: merge_csv_files_writes merged_df_eq to_csv_def Let_def)

theorem merge_column_count_witness:
  "survivors lab [''out/run1.csv'', ''out/run2.csv''] \<noteq> []
   \<and> map (header \<circ> snd)
       (csv_writes (fst (merge_csv_files lab [''out/run1.csv'', ''out/run2.csv''] ''out'' ''t''))) =
       [[''CH0'', ''CH1'', ''CH2'']]"
proof -
  have h: "survivors lab [''out/run1.csv'', ''out/run2.csv''] \<noteq> []" by code_simp
  have v: "standardized_columns (Max (set (map (width lab)
             (survivors lab [''out/run1.csv'', ''out/run2.csv''])))) = [''CH0'', ''CH1'', ''CH2'']"
    by code_simp
  from merge_column_count[OF h, of "''out''" "''t''"] v h show ?thesis by simp
qed

text \<open>
  C2 as stated fails: the first surviving table of the run below has two columns, the
  second has three, and the merged file has three.
\<close>

theorem merge_column_count_counterexample:
  "survivors lab [''out/run1.csv'', ''out/run2.csv''] = [''out/run1.csv'', ''out/run2.csv'']
   \<and> width lab ''out/run1.csv'' = 2
   \<and> map (length \<circ> header \<circ> snd)
       (csv_writes (fst (merge_csv_files lab [''out/run1.csv'', ''out/run2.csv''] ''out'' ''t''))) = [3]"
  by code_simp

text \<open>
  C3. Merging the singleton list of a non-empty table with \<open>k\<close> columns writes one file
  whose header is exactly \<open>CH0 .. CH(k-1)\<close>, whatever the original labels were, and
  returns the merged path.
\<close>

theorem merge_single_columns:
  assumes "read_csv w file = Inr df" and "\<not> df_empty df"
  shows "map (header \<circ> snd) (csv_writes (fst (merge_csv_files w [file] out ts))) =
           [map (\<lambda>i. ''CH'' @ str_nat i) [0..<length (df_columns df)]]
       \<and> snd (merge_csv_files w [file] out ts) = Inr (Some (merged_name out ts))"
proof -
  have s: "survivors w [file] = [file]" using assms by (simp add: survivors_def survives_def)
  have k: "width w file = length (df_columns df)" using assms by (simp add: width_def table_def)
  have ne: "survivors w [file] \<noteq> []" using s by simp
  show ?thesis
    using merge_csv_files_writes[OF ne, of out ts] merged_df_eq[OF ne] s k
    by (simp add: to_csv_def Let_def standardized_columns_def)
qed

theorem merge_single_columns_witness:
  "read_csv lab ''out/run1.csv'' = Inr frame_a \<and> \<not> df_empty frame_a
   \<and> map (header \<circ> snd) (csv_writes (fst (merge_csv_files lab [''out/run1.csv''] ''out'' ''t''))) =
       [[''CH0'', ''CH1'']]"
proof -
  have h1: "read_csv lab ''out/run1.csv'' = Inr frame_a" by code_simp
  have h2: "\<not> df_empty frame_a" by code_simp
  have v: "map (\<lambda>i. ''CH'' @ str_nat i) [0..<length (df_columns frame_a)] = [''CH0'', ''CH1'']"
    by code_simp
  from merge_single_columns[OF h1 h2, of "''out''" "''t''"] v h1 h2 show ?thesis by simp
qed

lemma width_le_Max:
  "f \<in> set fs \<Longrightarrow> width w f \<le> Max (set (map (width w) fs))"
  by (simp add: Max_ge)

lemma merged_rows_padded:
  assumes ne: "survivors w files \<noteq> []"
    and wf: "\<forall>f \<in> set (survivors w files). wf_df (table w f)"
  shows "map snd (df_rows (merged_df w files)) =
         concat (map (\<lambda>f. map (\<lambda>(i, r).
                   map2 (concat_cast w (snd (read_frames w files)))
                     (standardized_columns (Max (set (map (width w) (survivors w files)))))
                     (r @ replicate (Max (set (map (width w) (survivors w files))) - width w f) NaN))
                   (df_rows (table w f))) (survivors w files))"
proof -
  let ?K = "Max (set (map (width w) (survivors w files)))"
  let ?cast = "concat_cast w (snd (read_frames w files))"
  have pad: "map (\<lambda>(i, r). reindex_row ?cast (standardized_columns (width w f))
                   (standardized_columns ?K) r) (df_rows (table w f)) =
             map (\<lambda>(i, r). map2 ?cast (standardized_columns ?K)
                   (r @ replicate (?K - width w f) NaN)) (df_rows (table w f))"
    if f: "f \<in> set (survivors w files)" for f
  proof (rule map_cong[OF refl])
    fix x assume x: "x \<in> set (df_rows (table w f))"
    obtain i r where xr: "x = (i, r)" by (cases x)
    have "wf_df (table w f)" using wf f by blast
    then have len: "length r = width w f"
      using x xr by (auto simp: wf_df_def list_all_iff width_def)
    have le: "width w f \<le> ?K" using f by (rule width_le_Max)
    show "(case x of (i, r) \<Rightarrow> reindex_row ?cast (standardized_columns (width w f))
                      (standardized_columns ?K) r) =
          (case x of (i, r) \<Rightarrow> map2 ?cast (standardized_columns ?K)
                      (r @ replicate (?K - width w f) NaN))"
      unfolding xr prod.case by (rule reindex_row_pad[OF len le])
  qed
  have "concat (map (\<lambda>f. map (\<lambda>(i, r). reindex_row ?cast (standardized_columns (width w f))
                (standardized_columns ?K) r) (df_rows (table w f))) (survivors w files)) =
        concat (map (\<lambda>f. map (\<lambda>(i, r). map2 ?cast (standardized_columns ?K)
                (r @ replicate (?K - width w f) NaN)) (df_rows (table w f))) (survivors w files))"
    by (rule arg_cong[where f=concat], rule map_cong[OF refl], rule pad)
  then show ?thesis
    using merged_df_eq[OF ne] by (simp add: Let_def)
qed

lemma merged_index:
  assumes ne: "survivors w files \<noteq> []"
  shows "map fst (df_rows (merged_df w files)) =
         map int [0..<sum_list (map (\<lambda>f. df_len (table w f)) (survivors w files))]"
proof -
  have "length (concat (map (\<lambda>f. map (\<lambda>(i, r). reindex_row cast (standardized_columns (width w f))
            (standardized_columns K) r) (df_rows (table w f))) fs)) =
        sum_list (map (\<lambda>f. df_len (table w f)) fs)" for K fs cast
    by (induction fs) (simp_all add: df_len_def)
  then show ?thesis using merged_df_eq[OF ne] by (simp add: Let_def)
qed

text \<open>
  C4. With at least one surviving table (and frames whose rows have one cell per
  column), the merge writes one file, the merged frame without its index. Its rows are
  the rows of the surviving tables, table after table in the order the files were given
  and within a table in the table's own order: each merged row is the source row laid
  out under \<open>CH0 .. CH(K-1)\<close>, padded with missing values up to the merged width, each
  cell cast to the dtype of its merged column. The row index is \<open>0, 1, ..\<close> afresh, and
  the number of rows is the sum of the tables' row counts.
\<close>

theorem merge_rows:
  assumes "survivors w files \<noteq> []"
    and "\<forall>f \<in> set (survivors w files). wf_df (table w f)"
  shows "csv_writes (fst (merge_csv_files w files out ts)) =
           [(merged_name out ts, to_csv (merged_df w files) False)]
       \<and> map fst (df_rows (merged_df w files)) =
           map int [0..<sum_list (map (\<lambda>f. df_len (table w f)) (survivors w files))]
       \<and> body (to_csv (merged_df w files) False) =
           concat (map (\<lambda>f. map (\<lambda>(i, r).
               map2 (concat_cast w (snd (read_frames w files)))
                 (standardized_columns (Max (set (map (width w) (survivors w files)))))
                 (r @ replicate (Max (set (map (width w) (survivors w files))) - width w f) NaN))
               (df_rows (table w f))) (survivors w files))
       \<and> length (body (to_csv (merged_df w files) False)) =
           sum_list (map (\<lambda>f. df_len (table w f)) (survivors w files))"
proof -
  have a: "csv_writes (fst (merge_csv_files w files out ts)) =
           [(merged_name out ts, to_csv (merged_df w files) False)]"
    using assms(1) by (rule merge_csv_files_writes)
  have b: "map fst (df_rows (merged_df w files)) =
           map int [0..<sum_list (map (\<lambda>f. df_len (table w f)) (survivors w files))]"
    using assms(1) by (rule merged_index)
  have c: "body (to_csv (merged_df w files) False) =
           concat (map (\<lambda>f. map (\<lambda>(i, r).
               map2 (concat_cast w (snd (read_frames w files)))
                 (standardized_columns (Max (set (map (width w) (survivors w files)))))
                 (r @ replicate (Max (set (map (width w) (survivors w files))) - width w f) NaN))
               (df_rows (table w f))) (survivors w files))"
    using merged_rows_padded[OF assms] by (simp add: to_csv_def)
  have "length (df_rows (merged_df w files)) =
           sum_list (map (\<lambda>f. df_len (table w f)) (survivors w files))"
    using arg_cong[OF b, of length] by simp
  then have d: "length (body (to_csv (merged_df w files) False)) =
           sum_list (map (\<lambda>f. df_len (table w f)) (survivors w files))"
    by (simp add: to_csv_def)
  from a b c d show ?thesis by blast
qed

theorem merge_rows_witness:
  "survivors lab [''out/run2.csv'', ''out/empty.csv'', ''out/run3.csv'', ''out/run1.csv''] \<noteq> []
   \<and> list_all (\<lambda>f. wf_df (table lab f))
        (survivors lab [''out/run2.csv'', ''out/empty.csv'', ''out/run3.csv'', ''out/run1.csv''])
   \<and> map fst (df_rows (merged_df lab
        [''out/run2.csv'', ''out/empty.csv'', ''out/run3.csv'', ''out/run1.csv''])) = [0, 1, 2, 3]
   \<and> body (to_csv (merged_df lab
        [''out/run2.csv'', ''out/empty.csv'', ''out/run3.csv'', ''out/run1.csv'']) False) =
       [[Num 5, Num 6, Flt 7], [Num 8, Num 9, NaN], [Num 1, Num 2, NaN], [Num 3, Num 4, NaN]]"
proof -
  let ?files = "[''out/run2.csv'', ''out/empty.csv'', ''out/run3.csv'', ''out/run1.csv'']"
  have h1: "survivors lab ?files \<noteq> []" by code_simp
  have h2: "\<forall>f \<in> set (survivors lab ?files). wf_df (table lab f)" by code_simp
  have v1: "map int [0..<sum_list (map (\<lambda>f. df_len (table lab f)) (survivors lab ?files))] = [0, 1, 2, 3]"
    by code_simp
  have v2: "concat (map (\<lambda>f. map (\<lambda>(i, r).
               map2 (concat_cast lab (snd (read_frames lab ?files)))
                 (standardized_columns (Max (set (map (width lab) (survivors lab ?files)))))
                 (r @ replicate (Max (set (map (width lab) (survivors lab ?files))) - width lab f) NaN))
               (df_rows (table lab f))) (survivors lab ?files)) =
       [[Num 5, Num 6, Flt 7], [Num 8, Num 9, NaN], [Num 1, Num 2, NaN], [Num 3, Num 4, NaN]]"
    by code_simp
  from merge_rows[OF h1 h2, of "''out''" "''t''"] v1 v2 h1 h2 show ?thesis
    by (simp add: list_all_iff)
qed

lemma read_frames_nil_frames: "snd (read_frames w files) \<noteq> [] \<Longrightarrow> files \<noteq> []"
  by (cases files) auto

lemma read_frames_skip:
  assumes "(\<exists>df. read_csv w e = Inr df \<and> df_empty df) \<or> (\<exists>m. read_csv w e = Inl (EmptyDataError m))"
  shows "read_frames w (e # files) =
           (Print (case read_csv w e of
                     Inr df \<Rightarrow> ''Skipping empty file: '' @ e
                   | Inl err \<Rightarrow> ''No data in '' @ e @ '', skipping.'') # fst (read_frames w files),
            snd (read_frames w files))"
  using assms by (cases "read_frames w files") auto

text \<open>
  C5. An input that is empty (a table with no rows or no columns, or a file pandas
  rejects as having no data) is skipped with exactly one printed notice: merging the
  list with the empty file in front returns the same result and writes the same file as
  merging the list without it.
\<close>

theorem merge_skips_empty:
  assumes "(\<exists>df. read_csv w e = Inr df \<and> df_empty df) \<or> (\<exists>m. read_csv w e = Inl (EmptyDataError m))"
  shows "snd (merge_csv_files w (e # files) out ts) = snd (merge_csv_files w files out ts)
       \<and> csv_writes (fst (merge_csv_files w (e # files) out ts)) =
           csv_writes (fst (merge_csv_files w files out ts))
       \<and> fst (merge_csv_files w (e # files) out ts) =
           Print (case read_csv w e of
                    Inr df \<Rightarrow> ''Skipping empty file: '' @ e
                  | Inl err \<Rightarrow> ''No data in '' @ e @ '', skipping.'')
           # fst (merge_csv_files w files out ts)"
proof -
  obtain ev dfs where r: "read_frames w files = (ev, dfs)" by (cases "read_frames w files")
  have l: "dfs \<noteq> [] \<Longrightarrow> last (e # files) = last files"
    using read_frames_nil_frames[of w files] r by simp
  have m: "fst (merge_csv_files w (e # files) out ts) =
           Print (case read_csv w e of
                    Inr df \<Rightarrow> ''Skipping empty file: '' @ e
                  | Inl err \<Rightarrow> ''No data in '' @ e @ '', skipping.'')
           # fst (merge_csv_files w files out ts)"
    and s: "snd (merge_csv_files w (e # files) out ts) = snd (merge_csv_files w files out ts)"
    unfolding merge_csv_files_def read_frames_skip[OF assms] r using l
    by (auto simp: Let_def split: sum.splits)
  from m have "csv_writes (fst (merge_csv_files w (e # files) out ts)) =
           csv_writes (fst (merge_csv_files w files out ts))" by simp
  with m s show ?thesis by blast
qed

theorem merge_skips_empty_witness:
  "((\<exists>df. read_csv lab ''out/empty.csv'' = Inr df \<and> df_empty df)
      \<or> (\<exists>m. read_csv lab ''out/empty.csv'' = Inl (EmptyDataError m)))
   \<and> merge_csv_files lab [''out/empty.csv'', ''out/run3.csv''] ''out'' ''t'' =
       (Print ''Skipping empty file: out/empty.csv''
          # fst (merge_csv_files lab [''out/run3.csv''] ''out'' ''t''),
        snd (merge_csv_files lab [''out/run3.csv''] ''out'' ''t''))
   \<and> csv_writes (fst (merge_csv_files lab [''out/empty.csv'', ''out/run3.csv''] ''out'' ''t'')) =
       [(''out/merge_csv_t.csv'', \<lparr>header = [''CH0'', ''CH1''], body = [[Num 8, Num 9]]\<rparr>)]"
proof -
  have r: "read_csv lab ''out/empty.csv'' = Inr frame_header_only" by code_simp
  have e: "df_empty frame_header_only" by code_simp
  have h: "(\<exists>df. read_csv lab ''out/empty.csv'' = Inr df \<and> df_empty df)
      \<or> (\<exists>m. read_csv lab ''out/empty.csv'' = Inl (EmptyDataError m))"
    using r e by blast
  have v: "csv_writes (fst (merge_csv_files lab [''out/run3.csv''] ''out'' ''t'')) =
       [(''out/merge_csv_t.csv'', \<lparr>header = [''CH0'', ''CH1''], body = [[Num 8, Num 9]]\<rparr>)]"
    by code_simp
  from merge_skips_empty[OF h, of "[''out/run3.csv'']" "''out''" "''t''"] r v h
  show ?thesis by (simp add: prod_eq_iff)
qed

text \<open>
  C6. When no input survives, the merge returns \<open>None\<close> without raising, writes no
  file, and ends by printing that there is nothing to merge.
\<close>

theorem merge_nothing_survives:
  assumes "\<forall>f \<in> set files. \<not> survives w f"
  shows "snd (merge_csv_files w files out ts) = Inr None
       \<and> csv_writes (fst (merge_csv_files w files out ts)) = []
       \<and> last (fst (merge_csv_files w files out ts)) = Print ''No valid CSV files to merge.''"
proof -
  have "survivors w files = []" using assms by (simp add: survivors_def)
  then show ?thesis
    by (simp add: merge_csv_files_none csv_writes_append csv_writes_read_frames)
qed

theorem merge_nothing_survives_witness:
  "survivors lab [''out/empty.csv'', ''out/blank.csv'', ''out/nothing.csv''] = []
   \<and> snd (merge_csv_files lab [''out/empty.csv'', ''out/blank.csv'', ''out/nothing.csv''] ''out'' ''t'')
       = Inr None
   \<and> csv_writes (fst (merge_csv_files lab
        [''out/empty.csv'', ''out/blank.csv'', ''out/nothing.csv''] ''out'' ''t'')) = []"
proof -
  have h: "\<forall>f \<in> set [''out/empty.csv'', ''out/blank.csv'', ''out/nothing.csv'']. \<not> survives lab f"
    by code_simp
  have s: "survivors lab [''out/empty.csv'', ''out/blank.csv'', ''out/nothing.csv''] = []"
    by code_simp
  from merge_nothing_survives[OF h, of "''out''" "''t''"] s show ?thesis by blast
qed

section \<open>Claims about the transform stage\<close>

lemma png_writes_append: "png_writes (a @ b) = png_writes a @ png_writes b"
  by (induction a rule: png_writes.induct) simp_all

lemma fst_then_do:
  "fst (then_do m f) = (case snd m of Inl e \<Rightarrow> fst m | Inr x \<Rightarrow> fst m @ fst (f x))"
  by (cases m) (auto simp: then_do_def split: sum.splits prod.splits)

lemma png_writes_convert: "png_writes (fst (convert_tdms_to_csv w p out)) = []"
  by (simp add: convert_tdms_to_csv_def Let_def split: sum.splits)

lemma interleave_step:
  assumes "i < length ts" "ts ! i = e # es" "\<And>a b. g (a @ b) = g a @ g b"
  shows "mset (g [e]) + mset (concat (map g (ts[i := es]))) = mset (concat (map g ts))"
proof -
  define xs where "xs = take i ts"
  define ys where "ys = drop (Suc i) ts"
  have t: "ts = xs @ (e # es) # ys"
    unfolding xs_def ys_def using assms(1,2) by (metis id_take_nth_drop)
  have u: "ts[i := es] = xs @ es # ys"
    unfolding xs_def ys_def using assms(1) by (rule upd_conv_take_nth_drop)
  have g: "g (e # es) = g [e] @ g es" using assms(3)[of "[e]" es] by simp
  have "mset (g [e]) + mset (concat (map g (xs @ es # ys))) =
        mset (concat (map g (xs @ (e # es) # ys)))"
    by (simp add: g)
  then show ?thesis by (simp only: u) (simp only: t [symmetric])
qed

lemma observed_concat:
  assumes "\<And>a b. g (a @ b) = g a @ g b"
  shows "g (concat ts) = concat (map g ts)"
proof (induction ts)
  case Nil
  have "g [] = g [] @ g []" using assms[of "[]" "[]"] by simp
  then show ?case by simp
next
  case (Cons t ts)
  have "g (t @ concat ts) = g t @ g (concat ts)" by (rule assms)
  with Cons show ?case by simp
qed

lemma interleave_observed:
  assumes "\<And>a b. g (a @ b) = g a @ g b"
  shows "mset (g (interleave steps ts)) = mset (concat (map g ts))"
proof (induction steps arbitrary: ts)
  case Nil
  show ?case by (simp add: observed_concat[OF assms])
next
  case step: (Cons i steps)
  show ?case
  proof (cases "i < length ts")
    case False
    then show ?thesis using step by simp
  next
    case True
    show ?thesis
    proof (cases "ts ! i")
      case Nil
      then show ?thesis using step True by simp
    next
      case next_event: (Cons e es)
      have h: "g (e # interleave steps (ts[i := es])) = g [e] @ g (interleave steps (ts[i := es]))"
        using assms[of "[e]" "interleave steps (ts[i := es])"] by simp
      have "interleave (i # steps) ts = e # interleave steps (ts[i := es])"
        using True next_event by simp
      then have "mset (g (interleave (i # steps) ts)) =
                 mset (g [e]) + mset (concat (map g (ts[i := es])))"
        using h step[of "ts[i := es]"] by simp
      also have "\<dots> = mset (concat (map g ts))"
        by (rule interleave_step[OF True next_event assms])
      finally show ?thesis .
    qed
  qed
qed

lemma png_writes_handle_futures: "png_writes (fst (handle_futures w folder out names)) = []"
proof (induction names)
  case Nil
  then show ?case by simp
next
  case (Cons filename rest)
  then show ?case
    by (cases "handle_futures w folder out rest")
       (auto simp: then_do_def split: sum.splits)
qed

lemma png_writes_batch_convert: "png_writes (fst (batch_convert w folder out)) = []"
proof -
  have "mset (png_writes (fst (batch_convert w folder out))) = {#}"
    unfolding batch_convert_def Let_def fst_conv
    by (simp add: interleave_observed[where g=png_writes, OF png_writes_append]
          png_writes_handle_futures task_events_def png_writes_convert)
  then show ?thesis by simp
qed

lemma png_writes_read_frames: "png_writes (fst (read_frames w files)) = []"
  by (induction files) (auto split: prod.splits sum.splits error.splits simp: Let_def)

lemma png_writes_merge_csv_files: "png_writes (fst (merge_csv_files w files out ts)) = []"
  using png_writes_read_frames[of w files]
  by (cases "read_frames w files")
     (auto simp: merge_csv_files_def Let_def png_writes_append split: sum.splits)

lemma png_writes_merge_stage: "png_writes (fst (merge_stage w out sm csv_files)) = []"
  by (simp add: merge_stage_def png_writes_merge_csv_files split: sum.splits)

lemma transform_stage_off:
  "transform_stage w sm False channels algorithm csv_files merged = ([], Inr ())"
  by (simp add: transform_stage_def)

lemma transform_stage_skipped:
  assumes "channels = None \<or> channels = Some [] \<or> algorithm = None \<or> algorithm = Some 0"
  shows "transform_stage w sm transform channels algorithm csv_files merged = ([], Inr ())"
  using assms by (auto simp: transform_stage_def truthy_list_def truthy_int_def)

text \<open>
  C10. With the transform flag set but the channel list absent or empty, or the
  algorithm selector absent or zero, the guard of line 176 (and of line 209 in file mode)
  is false: the transform stage does nothing, raises nothing and prints nothing. The run
  is the conversion and merge stages alone, event for event the run with the flag off,
  and it saves no image.
\<close>

theorem transform_skipped:
  assumes "channels = None \<or> channels = Some [] \<or> algorithm = None \<or> algorithm = Some 0"
  shows "transform_stage w should_merge True channels algorithm csv_files merged = ([], Inr ())
       \<and> process_folder w folder out should_merge True channels algorithm =
           then_do (batch_convert w folder out) (\<lambda>csv_files.
           then_do (merge_stage w out should_merge csv_files) (\<lambda>merged. ([], Inr ())))
       \<and> process_folder w folder out should_merge True channels algorithm =
           process_folder w folder out should_merge False channels algorithm
       \<and> png_writes (fst (process_folder w folder out should_merge True channels algorithm)) = []
       \<and> main w (a\<lparr>arg_transform := True, arg_channels := channels, arg_algorithm := algorithm\<rparr>) =
           main w (a\<lparr>arg_transform := False, arg_channels := channels, arg_algorithm := algorithm\<rparr>)"
proof -
  have t: "transform_stage w sm True channels algorithm cs m = ([], Inr ())" for sm cs m
    using assms by (rule transform_stage_skipped)
  have p1: "process_folder w folder out should_merge True channels algorithm =
           then_do (batch_convert w folder out) (\<lambda>csv_files.
           then_do (merge_stage w out should_merge csv_files) (\<lambda>merged. ([], Inr ())))"
    by (simp add: process_folder_def t)
  have p2: "process_folder w folder out should_merge False channels algorithm =
           then_do (batch_convert w folder out) (\<lambda>csv_files.
           then_do (merge_stage w out should_merge csv_files) (\<lambda>merged. ([], Inr ())))"
    by (simp add: process_folder_def transform_stage_off)
  have png: "png_writes (fst (process_folder w folder out should_merge True channels algorithm)) = []"
    unfolding p1
    by (auto simp: fst_then_do png_writes_append png_writes_batch_convert png_writes_merge_stage
             split: sum.splits)
  have pf: "process_folder w F O' SM True channels algorithm =
            process_folder w F O' SM False channels algorithm" for F O' SM
    by (simp add: process_folder_def t transform_stage_off)
  have f: "\<not> (truthy_list channels \<and> truthy_int algorithm)"
    using assms by (auto simp: truthy_list_def truthy_int_def)
  have m: "main w (a\<lparr>arg_transform := True, arg_channels := channels, arg_algorithm := algorithm\<rparr>) =
           main w (a\<lparr>arg_transform := False, arg_channels := channels, arg_algorithm := algorithm\<rparr>)"
    using f by (auto simp add: main_def Let_def pf)
  from t p1 p2 png m show ?thesis by simp
qed

theorem transform_skipped_witness:
  "process_folder lab ''in'' ''out'' True True (Some []) (Some 2) =
     process_folder lab ''in'' ''out'' True False (Some []) (Some 2)
   \<and> snd (process_folder lab ''in'' ''out'' True True (Some []) (Some 2)) = Inr ()
   \<and> png_writes (fst (process_folder lab ''in'' ''out'' True True (Some []) (Some 2))) = []"
proof -
  have h: "Some [] = (None :: string list option) \<or> Some [] = Some ([] :: string list)
           \<or> Some 2 = (None :: int option) \<or> Some 2 = Some (0 :: int)" by simp
  have v: "snd (process_folder lab ''in'' ''out'' True True (Some []) (Some 2)) = Inr ()"
    by code_simp
  from transform_skipped[OF h, of lab True] v show ?thesis by blast
qed

text \<open>
  C7. For a selector other than 1 to 5 the dispatcher prints one not-implemented line
  per requested channel, in order, and does nothing else: it reads and writes no file
  and returns normally.
\<close>

theorem unsupported_algorithm:
  assumes "algorithm \<notin> {1, 2, 3, 4, 5}"
  shows "perform_transformation w csv_path channels algorithm =
           (map (\<lambda>channel. Print (''Algorithm '' @ str_int algorithm @ '' not implemented for '' @
                                   channel @ ''.'')) channels, Inr ())"
  using assms by (induction channels) (simp_all add: then_do_def)

theorem unsupported_algorithm_witness:
  "perform_transformation lab ''out/run1.csv'' [''volt'', ''amp''] 7 =
     ([Print ''Algorithm 7 not implemented for volt.'',
       Print ''Algorithm 7 not implemented for amp.''], Inr ())"
proof -
  have h: "(7::int) \<notin> {1, 2, 3, 4, 5}" by simp
  have v: "str_int 7 = ''7''" by code_simp
  from unsupported_algorithm[OF h, of lab "''out/run1.csv''" "[''volt'', ''amp'']"] v
  show ?thesis by simp
qed

section \<open>Claims about the folder pipeline\<close>

lemma mtime_keys_ok:
  assumes "\<forall>x \<in> set xs. stat_ok w x"
  shows "mtime_keys w xs = Inr (map (\<lambda>x. (mtime w x, x)) xs)"
  using assms by (induction xs) (auto simp: stat_ok_def mtime_def split: sum.splits)

lemma insort_key_decorated:
  "insort_key fst (f x, x) (map (\<lambda>y. (f y, y)) ys) = map (\<lambda>y. (f y, y)) (insort_key f x ys)"
  by (induction ys) simp_all

lemma sort_key_decorated:
  "sort_key fst (map (\<lambda>x. (f x, x)) xs) = map (\<lambda>x. (f x, x)) (sort_key f xs)"
  by (induction xs) (simp_all add: insort_key_decorated)

lemma sorted_by_mtime_ok:
  assumes "\<forall>x \<in> set xs. stat_ok w x"
  shows "sorted_by_mtime w xs = Inr (sort_key (mtime w) xs)"
  using mtime_keys_ok[OF assms] by (simp add: sorted_by_mtime_def sort_key_decorated comp_def)

text \<open>
  C8. In directory mode with merge requested, when the batch collected at least one
  path (and each collected file can be stat'ed), the list handed to the merge is the
  collected list sorted by modification time, ascending: it is sorted, it has the same
  elements, files with equal times keep their collection order, and the run is the run
  of \<open>merge_csv_files\<close> on that list.
\<close>

theorem merge_input_sorted:
  assumes "batch_convert w folder out = (ev, Inr csv_files)"
    and "csv_files \<noteq> []"
    and "\<forall>x \<in> set csv_files. stat_ok w x"
  shows "sorted (map (mtime w) (sort_key (mtime w) csv_files))
       \<and> mset (sort_key (mtime w) csv_files) = mset csv_files
       \<and> (\<forall>k. filter (\<lambda>x. mtime w x = k) (sort_key (mtime w) csv_files) =
                filter (\<lambda>x. mtime w x = k) csv_files)
       \<and> sorted_by_mtime w csv_files = Inr (sort_key (mtime w) csv_files)
       \<and> process_folder w folder out True transform channels algorithm =
           then_do (ev, Inr csv_files) (\<lambda>u.
           then_do (merge_csv_files w (sort_key (mtime w) csv_files) out (now w))
                   (transform_stage w True transform channels algorithm csv_files))"
proof -
  have s: "sorted_by_mtime w csv_files = Inr (sort_key (mtime w) csv_files)"
    using assms(3) by (rule sorted_by_mtime_ok)
  have m: "merge_stage w out True csv_files =
           merge_csv_files w (sort_key (mtime w) csv_files) out (now w)"
    using assms(2) s by (simp add: merge_stage_def)
  have p: "process_folder w folder out True transform channels algorithm =
           then_do (ev, Inr csv_files) (\<lambda>u.
           then_do (merge_csv_files w (sort_key (mtime w) csv_files) out (now w))
                   (transform_stage w True transform channels algorithm csv_files))"
    by (simp add: process_folder_def assms(1) then_do_def m)
  have k: "\<forall>k. filter (\<lambda>x. mtime w x = k) (sort_key (mtime w) csv_files) =
                filter (\<lambda>x. mtime w x = k) csv_files"
    by (simp add: sort_key_stable)
  from s p k show ?thesis by simp
qed

theorem merge_input_sorted_witness:
  "snd (batch_convert lab ''in'' ''out'') = Inr [''out/run3.csv'', ''out/run1.csv'', ''out/run2.csv'']
   \<and> discovered lab ''in'' = [''run 1.tdms'', ''run2.tdms'', ''run3.tdms'']
   \<and> sorted_by_mtime lab [''out/run3.csv'', ''out/run1.csv'', ''out/run2.csv''] =
       Inr [''out/run2.csv'', ''out/run3.csv'', ''out/run1.csv'']
   \<and> map (mtime lab) [''out/run2.csv'', ''out/run3.csv'', ''out/run1.csv''] = [10, 20, 30]"
proof -
  let ?cs = "[''out/run3.csv'', ''out/run1.csv'', ''out/run2.csv'']"
  have b: "snd (batch_convert lab ''in'' ''out'') = Inr ?cs" by code_simp
  then have h1: "batch_convert lab ''in'' ''out'' = (fst (batch_convert lab ''in'' ''out''), Inr ?cs)"
    by (simp add: prod_eq_iff)
  have h2: "?cs \<noteq> []" by simp
  have h3: "\<forall>x \<in> set ?cs. stat_ok lab x" by code_simp
  have d: "discovered lab ''in'' = [''run 1.tdms'', ''run2.tdms'', ''run3.tdms'']" by code_simp
  have v: "sort_key (mtime lab) ?cs = [''out/run2.csv'', ''out/run3.csv'', ''out/run1.csv'']"
    by code_simp
  have t: "map (mtime lab) [''out/run2.csv'', ''out/run3.csv'', ''out/run1.csv''] = [10, 20, 30]"
    by code_simp
  from merge_input_sorted[OF h1 h2 h3] b d v t show ?thesis by simp
qed

section \<open>Claims about conversion\<close>

lemma replace_nonempty:
  assumes "old \<noteq> []" "new \<noteq> []" "s \<noteq> []"
  shows "replace s old new \<noteq> []"
  using assms by (subst replace.simps) simp

lemma replace_space: "replace s '' '' '''' = filter (\<lambda>c. c \<noteq> CHR '' '') s"
proof (induction s)
  case Nil
  then show ?case by (simp add: replace.simps)
next
  case (Cons c s)
  then show ?case by (subst replace.simps) (cases s; simp)
qed

lemma sanitize_nonempty:
  assumes "s \<noteq> []" "last s \<noteq> CHR '' ''"
  shows "sanitize_filename s \<noteq> []"
proof -
  have "last s \<in> set s" using assms(1) by simp
  then have "last s \<in> set (filter (\<lambda>c. c \<noteq> CHR '' '') s)" using assms(2) by simp
  then have "filter (\<lambda>c. c \<noteq> CHR '' '') s \<noteq> []" by (metis empty_iff empty_set)
  then show ?thesis by (simp only: sanitize_filename_def replace_space not_False_eq_True)
qed

lemma path_join_last:
  assumes "b \<noteq> []"
  shows "path_join a b \<noteq> []" and "last (path_join a b) = last b"
  using assms by (auto simp: path_join_def)

lemma basename_last:
  assumes "p \<noteq> []" "last p \<noteq> CHR ''/''"
  shows "basename p \<noteq> []" and "last (basename p) = last p"
proof -
  obtain xs x where p: "p = xs @ [x]" using assms(1) by (cases p rule: rev_cases) auto
  have x: "x \<noteq> CHR ''/''" using assms(2) p by simp
  have t: "takeWhile (\<lambda>c. c \<noteq> CHR ''/'') (rev p) =
      x # takeWhile (\<lambda>c. c \<noteq> CHR ''/'') (rev xs)"
    unfolding p using x by simp
  show "basename p \<noteq> []" using t by (simp add: basename_def)
  have "last (basename p) = x" using t by (simp add: basename_def)
  then show "last (basename p) = last p" using p by simp
qed

lemma lower_char_slash_space:
  "lower_char c = CHR ''s'' \<Longrightarrow> c \<noteq> CHR ''/'' \<and> c \<noteq> CHR '' ''"
  by (auto simp: lower_char_def)

lemma endswith_tdms_last:
  assumes "endswith (lower fn) ''.tdms''"
  shows "fn \<noteq> []" and "last fn \<noteq> CHR ''/''" and "last fn \<noteq> CHR '' ''"
proof -
  define k where "k = length (lower fn) - length ''.tdms''"
  from assms have le: "length ''.tdms'' \<le> length (lower fn)"
    and d: "drop k (lower fn) = ''.tdms''"
    unfolding endswith_def k_def by blast+
  show ne: "fn \<noteq> []" using le by (auto simp: lower_def)
  have "k < length (lower fn)" using le by (simp add: k_def)
  then have "last (drop k (lower fn)) = last (lower fn)" by (rule last_drop)
  then have "last (lower fn) = CHR ''s''" using d by simp
  then have "lower_char (last fn) = CHR ''s''" using ne by (simp add: lower_def last_map)
  then show "last fn \<noteq> CHR ''/''" and "last fn \<noteq> CHR '' ''"
    using lower_char_slash_space by blast+
qed

lemma csv_path_nonempty:
  assumes "endswith (lower fn) ''.tdms''"
  shows "path_join out (replace (sanitize_filename (basename (path_join folder fn))) ''.tdms'' ''.csv'') \<noteq> []"
proof -
  note f = endswith_tdms_last[OF assms]
  have p: "path_join folder fn \<noteq> []" "last (path_join folder fn) = last fn"
    using path_join_last[OF f(1)] by simp_all
  have b: "basename (path_join folder fn) \<noteq> []" "last (basename (path_join folder fn)) = last fn"
    using basename_last[of "path_join folder fn"] p f(2) by simp_all
  have "sanitize_filename (basename (path_join folder fn)) \<noteq> []"
    using sanitize_nonempty b f(3) by simp
  then have "replace (sanitize_filename (basename (path_join folder fn))) ''.tdms'' ''.csv'' \<noteq> []"
    by (intro replace_nonempty) simp_all
  then show ?thesis by (rule path_join_last(1))
qed

lemma convert_fail:
  "tdms_read w p = Inl e \<Longrightarrow> convert_tdms_to_csv w p out = ([], Inl e)"
  by (simp add: convert_tdms_to_csv_def)

lemma convert_ok:
  assumes "tdms_read w p = Inr df"
  shows "convert_tdms_to_csv w p out =
     ([WriteCsv (path_join out (replace (sanitize_filename (basename p)) ''.tdms'' ''.csv''))
         \<lparr>header = df_columns df, body = map snd (df_rows df)\<rparr>,
       Print (''Converted '' @ p @ '' to '' @
              path_join out (replace (sanitize_filename (basename p)) ''.tdms'' ''.csv''))],
      Inr (path_join out (replace (sanitize_filename (basename p)) ''.tdms'' ''.csv'')))"
  using assms by (simp add: convert_tdms_to_csv_def to_csv_def Let_def)

lemma csv_writes_handle_futures: "csv_writes (fst (handle_futures w folder out names)) = []"
proof (induction names)
  case Nil
  then show ?case by simp
next
  case (Cons filename rest)
  then show ?case
    by (cases "handle_futures w folder out rest")
       (auto simp: then_do_def split: sum.splits)
qed

lemma batch_convert_writes:
  "mset (csv_writes (fst (batch_convert w folder out))) =
   mset (concat (map (\<lambda>fn. csv_writes (fst (convert_tdms_to_csv w (path_join folder fn) out)))
                     (discovered w folder)))"
  unfolding batch_convert_def Let_def fst_conv
  by (simp add: interleave_observed[where g=csv_writes, OF csv_writes_append]
        csv_writes_handle_futures task_events_def comp_def)

lemma handle_futures_all:
  assumes "\<forall>fn \<in> set names. endswith (lower fn) ''.tdms'' \<and> decodes w (path_join folder fn)"
  shows "\<exists>csv_files. snd (handle_futures w folder out names) = Inr csv_files
           \<and> length csv_files = length names"
  using assms
proof (induction names)
  case Nil
  then show ?case by simp
next
  case (Cons fn rest)
  then obtain df where df: "tdms_read w (path_join folder fn) = Inr df"
    by (auto simp: decodes_def split: sum.splits)
  from Cons.prems have "endswith (lower fn) ''.tdms''" by simp
  then have ne: "path_join out (replace (sanitize_filename (basename (path_join folder fn)))
                   ''.tdms'' ''.csv'') \<noteq> []"
    by (rule csv_path_nonempty)
  from Cons obtain cs where cs: "snd (handle_futures w folder out rest) = Inr cs"
    "length cs = length rest" by auto
  show ?case
    using cs ne
    by (cases "handle_futures w folder out rest")
       (simp add: convert_ok[OF df] then_do_def)
qed

lemma handle_futures_fail:
  assumes "\<exists>fn \<in> set names. \<not> decodes w (path_join folder fn)"
  shows "\<exists>e. snd (handle_futures w folder out names) = Inl e
           \<and> (\<exists>fn \<in> set names. tdms_read w (path_join folder fn) = Inl e)"
  using assms
proof (induction names)
  case Nil
  then show ?case by simp
next
  case (Cons fn rest)
  show ?case
  proof (cases "tdms_read w (path_join folder fn)")
    case (Inl e)
    then show ?thesis by (auto simp: convert_fail)
  next
    case (Inr df)
    with Cons.prems have "\<exists>fn \<in> set rest. \<not> decodes w (path_join folder fn)"
      by (auto simp: decodes_def)
    from Cons.IH[OF this] obtain e where
      e: "snd (handle_futures w folder out rest) = Inl e"
         "\<exists>fn \<in> set rest. tdms_read w (path_join folder fn) = Inl e" by blast
    show ?thesis
      using e
      by (cases "handle_futures w folder out rest")
         (auto simp: convert_ok[OF Inr] then_do_def)
  qed
qed

lemma discovered_endswith: "fn \<in> set (discovered w folder) \<Longrightarrow> endswith (lower fn) ''.tdms''"
  by (simp add: discovered_def)

text \<open>
  C1, as the code has it. Whatever order the futures are yielded in and however the
  threads are scheduled: when every discovered capture decodes, the collected list has
  one path per discovered file. When some capture fails to decode, nothing catches the
  error that \<open>future.result()\<close> re-raises: no list is produced, and the run of
  \<open>process_folder\<close> is the batch alone, ending with the decode error of one of the
  discovered files; no merge and no transform follows. In both cases every conversion
  task runs: the CSV files written are exactly those of the captures that decode, in
  no particular order.
\<close>

theorem batch_convert_outcome:
  assumes "mset (as_completed w (discovered w folder)) = mset (discovered w folder)"
  shows "((\<forall>fn \<in> set (discovered w folder). decodes w (path_join folder fn)) \<longrightarrow>
            (\<exists>csv_files. snd (batch_convert w folder out) = Inr csv_files
               \<and> length csv_files = length (discovered w folder)))
       \<and> ((\<exists>fn \<in> set (discovered w folder). \<not> decodes w (path_join folder fn)) \<longrightarrow>
            (\<exists>e. snd (batch_convert w folder out) = Inl e
               \<and> (\<exists>fn \<in> set (discovered w folder). tdms_read w (path_join folder fn) = Inl e)
               \<and> process_folder w folder out should_merge transform channels algorithm =
                   (fst (batch_convert w folder out), Inl e)))
       \<and> mset (csv_writes (fst (batch_convert w folder out))) =
           mset (concat (map (\<lambda>fn. csv_writes (fst (convert_tdms_to_csv w (path_join folder fn) out)))
                             (discovered w folder)))"
proof -
  let ?done = "as_completed w (discovered w folder)"
  have s: "set ?done = set (discovered w folder)" using assms by (rule mset_eq_setD)
  have l: "length ?done = length (discovered w folder)" using assms by (rule mset_eq_length)
  have r: "snd (batch_convert w folder out) = snd (handle_futures w folder out ?done)"
    by (simp add: batch_convert_def Let_def)
  have a: "\<exists>csv_files. snd (batch_convert w folder out) = Inr csv_files
               \<and> length csv_files = length (discovered w folder)"
    if "\<forall>fn \<in> set (discovered w folder). decodes w (path_join folder fn)"
  proof -
    have "\<forall>fn \<in> set ?done. endswith (lower fn) ''.tdms'' \<and> decodes w (path_join folder fn)"
      using that s discovered_endswith by blast
    from handle_futures_all[OF this, of out] l r show ?thesis by simp
  qed
  have b: "\<exists>e. snd (batch_convert w folder out) = Inl e
               \<and> (\<exists>fn \<in> set (discovered w folder). tdms_read w (path_join folder fn) = Inl e)
               \<and> process_folder w folder out should_merge transform channels algorithm =
                   (fst (batch_convert w folder out), Inl e)"
    if "\<exists>fn \<in> set (discovered w folder). \<not> decodes w (path_join folder fn)"
  proof -
    have "\<exists>fn \<in> set ?done. \<not> decodes w (path_join folder fn)" using that s by simp
    from handle_futures_fail[OF this, of out] obtain e where
      e: "snd (batch_convert w folder out) = Inl e"
      and f: "\<exists>fn \<in> set (discovered w folder). tdms_read w (path_join folder fn) = Inl e"
      using r s by auto
    from e have "process_folder w folder out should_merge transform channels algorithm =
                   (fst (batch_convert w folder out), Inl e)"
      by (cases "batch_convert w folder out") (simp add: process_folder_def then_do_def)
    with e f show ?thesis by blast
  qed
  from a b batch_convert_writes[of w folder out] show ?thesis by blast
qed

theorem batch_convert_outcome_witness:
  "(\<exists>csv_files. snd (batch_convert lab ''in'' ''out'') = Inr csv_files \<and> length csv_files = 3)
   \<and> (\<exists>e. snd (batch_convert lab_corrupt ''in'' ''out'') = Inl e
          \<and> process_folder lab_corrupt ''in'' ''out'' True False None None =
              (fst (batch_convert lab_corrupt ''in'' ''out''), Inl e))
   \<and> mset (csv_writes (fst (batch_convert lab_corrupt ''in'' ''out''))) =
       mset [(''out/run1.csv'', \<lparr>header = [''time'', ''volt''],
                                  body = [[Num 1, Num 2], [Num 3, Num 4]]\<rparr>),
             (''out/run3.csv'', \<lparr>header = [''t'', ''v''], body = [[Num 8, Num 9]]\<rparr>)]"
proof -
  have d: "discovered lab ''in'' = [''run 1.tdms'', ''run2.tdms'', ''run3.tdms'']" by code_simp
  have d': "discovered lab_corrupt ''in'' = [''run 1.tdms'', ''run2.tdms'', ''run3.tdms'']" by code_simp
  have c: "as_completed lab [''run 1.tdms'', ''run2.tdms'', ''run3.tdms''] =
           [''run3.tdms'', ''run 1.tdms'', ''run2.tdms'']"
    by code_simp
  have c': "as_completed lab_corrupt [''run 1.tdms'', ''run2.tdms'', ''run3.tdms''] =
            [''run3.tdms'', ''run 1.tdms'', ''run2.tdms'']"
    by code_simp
  have h: "mset (as_completed lab (discovered lab ''in'')) = mset (discovered lab ''in'')"
    unfolding d c by simp
  have h': "mset (as_completed lab_corrupt (discovered lab_corrupt ''in'')) =
            mset (discovered lab_corrupt ''in'')"
    unfolding d' c' by simp
  have ok: "\<forall>fn \<in> set (discovered lab ''in''). decodes lab (path_join ''in'' fn)" by code_simp
  have bad: "\<exists>fn \<in> set (discovered lab_corrupt ''in''). \<not> decodes lab_corrupt (path_join ''in'' fn)"
    by code_simp
  have v: "concat (map (\<lambda>fn. csv_writes (fst (convert_tdms_to_csv lab_corrupt
             (path_join ''in'' fn) ''out''))) (discovered lab_corrupt ''in'')) =
       [(''out/run1.csv'', \<lparr>header = [''time'', ''volt''],
                              body = [[Num 1, Num 2], [Num 3, Num 4]]\<rparr>),
        (''out/run3.csv'', \<lparr>header = [''t'', ''v''], body = [[Num 8, Num 9]]\<rparr>)]"
    by code_simp
  have n: "length (discovered lab ''in'') = 3" by (simp add: d)
  from batch_convert_outcome[OF h, of "''out''"] ok n
  have 1: "\<exists>csv_files. snd (batch_convert lab ''in'' ''out'') = Inr csv_files \<and> length csv_files = 3"
    by simp
  from batch_convert_outcome[OF h', of "''out''" True False None None] bad
  have 2: "\<exists>e. snd (batch_convert lab_corrupt ''in'' ''out'') = Inl e
          \<and> process_folder lab_corrupt ''in'' ''out'' True False None None =
              (fst (batch_convert lab_corrupt ''in'' ''out''), Inl e)"
    by blast
  from batch_convert_outcome[OF h', of "''out''"] v
  have 3: "mset (csv_writes (fst (batch_convert lab_corrupt ''in'' ''out''))) =
       mset [(''out/run1.csv'', \<lparr>header = [''time'', ''volt''],
                                  body = [[Num 1, Num 2], [Num 3, Num 4]]\<rparr>),
             (''out/run3.csv'', \<lparr>header = [''t'', ''v''], body = [[Num 8, Num 9]]\<rparr>)]"
    by simp
  from 1 2 3 show ?thesis by blast
qed

text \<open>
  C1 as stated fails: of the three captures below one is corrupt; the claim promises a
  list of two paths, the run ends with the decode error instead, and the events of the
  whole run are those of the batch.
\<close>

theorem batch_isolation_counterexample:
  "map (decodes lab_corrupt \<circ> path_join ''in'') (discovered lab_corrupt ''in'') = [True, False, True]
   \<and> snd (batch_convert lab_corrupt ''in'' ''out'') = Inl (OtherError ''corrupt'')
   \<and> process_folder lab_corrupt ''in'' ''out'' True False None None =
       (fst (batch_convert lab_corrupt ''in'' ''out''), Inl (OtherError ''corrupt''))"
  by code_simp

text \<open>
  Where the capture extension is written in lower case and the name has no other dot,
  the converter does derive the name the usual way: spaces removed, \<open>.tdms\<close> replaced
  by \<open>.csv\<close>, and the table written without its index.
\<close>

lemma replace_extension:
  assumes "CHR ''.'' \<notin> set s"
  shows "replace (s @ ''.tdms'') ''.tdms'' ''.csv'' = s @ ''.csv''"
  using assms
proof (induction s)
  case Nil
  then show ?case by (simp add: replace.simps)
next
  case (Cons c s)
  then have c: "c \<noteq> CHR ''.''" and s: "CHR ''.'' \<notin> set s" by auto
  show ?case using c Cons.IH[OF s] by (subst replace.simps) simp
qed

lemma convert_lowercase_extension:
  assumes "tdms_read w p = Inr df" and "basename p = stem @ ''.tdms''" and "CHR ''.'' \<notin> set stem"
  shows "convert_tdms_to_csv w p out =
     ([WriteCsv (path_join out (filter (\<lambda>c. c \<noteq> CHR '' '') stem @ ''.csv''))
         \<lparr>header = df_columns df, body = map snd (df_rows df)\<rparr>,
       Print (''Converted '' @ p @ '' to '' @
              path_join out (filter (\<lambda>c. c \<noteq> CHR '' '') stem @ ''.csv''))],
      Inr (path_join out (filter (\<lambda>c. c \<noteq> CHR '' '') stem @ ''.csv'')))"
proof -
  have "sanitize_filename (basename p) = filter (\<lambda>c. c \<noteq> CHR '' '') stem @ ''.tdms''"
    using assms(2) by (simp add: sanitize_filename_def replace_space)
  moreover have "CHR ''.'' \<notin> set (filter (\<lambda>c. c \<noteq> CHR '' '') stem)" using assms(3) by simp
  ultimately have "replace (sanitize_filename (basename p)) ''.tdms'' ''.csv'' =
                   filter (\<lambda>c. c \<noteq> CHR '' '') stem @ ''.csv''"
    using replace_extension by simp
  then show ?thesis using convert_ok[OF assms(1), of out] by simp
qed

text \<open>
  C9 at a capture with an upper-case extension. The path is accepted (the test of lines
  162 and 207 lowers the name first), the file is written without an index column, but
  \<open>replace('.tdms', '.csv')\<close> is case-sensitive: the CSV text is written under the
  name \<open>X.TDMS\<close>, the capture extension not replaced.
\<close>

theorem convert_uppercase_extension:
  "endswith (lower ''in/X.TDMS'') ''.tdms''
   \<and> convert_tdms_to_csv lab ''in/X.TDMS'' ''out'' =
       ([WriteCsv ''out/X.TDMS'' \<lparr>header = [''t'', ''v''], body = [[Num 8, Num 9]]\<rparr>,
         Print ''Converted in/X.TDMS to out/X.TDMS''],
        Inr ''out/X.TDMS'')"
  by code_simp

end
